theory Spec2Isabelle
  imports Main "HOL-Library.Multiset"
begin

section \<open>Arrays\<close>

text \<open>
  An array is its shape together with its elements in row-major (C) order, the order in
  which \<open>ravel\<close> lists them. Elements are drawn from a totally ordered type, which is
  what the sorting and searching collaborators require; index arrays hold \<open>int\<close>,
  since the source subtracts from them.
\<close>

record 'a ndarray =
  shape :: "nat list"
  data :: "'a list"

datatype error = NotImplementedError string | IndexError | ValueError | UnboundLocalError

text \<open>The type invariant of an array: it holds as many elements as its shape says.\<close>

definition wf_array :: "'a ndarray \<Rightarrow> bool" where
  "wf_array a = (length (data a) = prod_list (shape a))"

text \<open>A one-dimensional array holding the given elements.\<close>

definition array1 :: "'a list \<Rightarrow> 'a ndarray" where
  "array1 xs = \<lparr>shape = [length xs], data = xs\<rparr>"

text \<open>\<open>a.size\<close>: the number of elements held.\<close>

definition asize :: "'a ndarray \<Rightarrow> nat" where
  "asize a = length (data a)"

text \<open>
  A local variable that only some branches assign is an \<open>option\<close>; reading it while
  unassigned raises. Fallible steps are sequenced, the first error raised being the result.
\<close>

definition bound :: "'a option \<Rightarrow> error + 'a" where
  "bound v = (case v of None \<Rightarrow> Inl UnboundLocalError | Some x \<Rightarrow> Inr x)"

definition bind_err :: "error + 'a \<Rightarrow> ('a \<Rightarrow> error + 'b) \<Rightarrow> error + 'b" where
  "bind_err m f = (case m of Inl e \<Rightarrow> Inl e | Inr x \<Rightarrow> f x)"

section \<open>The array collaborators\<close>

text \<open>
  Modelled from the spec: \<open>ravel\<close> and \<open>reshape\<close> (section 6 and the glossary) are
  not part of the source file. \<open>ravel\<close> collapses an array into one dimension in a fixed
  iteration order; \<open>reshape\<close> keeps the elements and their order and changes the shape,
  and is refused when the new shape holds a different number of elements.
\<close>

definition ravel :: "'a ndarray \<Rightarrow> 'a ndarray" where
  "ravel a = array1 (data a)"

definition reshape :: "'a ndarray \<Rightarrow> nat list \<Rightarrow> error + 'a ndarray" where
  "reshape a shp =
     (if prod_list shp = length (data a) then Inr \<lparr>shape = shp, data = data a\<rparr>
      else Inl ValueError)"

text \<open>
  Modelled from the spec: \<open>cupy.zeros\<close> and \<open>cupy.ones\<close> with \<open>dtype=bool\<close> are
  not part of the source file; they are the constant-boolean results of section 4.4.
\<close>

definition zeros :: "nat list \<Rightarrow> bool ndarray" where
  "zeros shp = \<lparr>shape = shp, data = replicate (prod_list shp) False\<rparr>"

definition ones :: "nat list \<Rightarrow> bool ndarray" where
  "ones shp = \<lparr>shape = shp, data = replicate (prod_list shp) True\<rparr>"

text \<open>
  Modelled from the spec: \<open>cupy.sort\<close> is not part of the source file. Section 6 gives
  \<open>sort(array) -> sorted array\<close>, a fresh array in non-decreasing order (section 3); it
  is applied to one-dimensional arrays only.
\<close>

definition sort_array :: "'a::linorder ndarray \<Rightarrow> 'a ndarray" where
  "sort_array a = \<lparr>shape = shape a, data = sort (data a)\<rparr>"

text \<open>
  Modelled from the spec: \<open>cupy.searchsorted\<close> is not part of the source file. For
  each query value it gives the first position where the value could be inserted to keep
  the reference sorted: leftmost is the first such index, rightmost the index just past
  all equal elements (section 3 and the glossary). The result is shaped like the queries.
\<close>

datatype side = SLeft | SRight

fun insertion_point :: "side \<Rightarrow> 'a::linorder list \<Rightarrow> 'a \<Rightarrow> nat" where
  "insertion_point SLeft xs v = length (takeWhile (\<lambda>x. x < v) xs)"
| "insertion_point SRight xs v = length (takeWhile (\<lambda>x. x \<le> v) xs)"

definition searchsorted :: "'a::linorder ndarray \<Rightarrow> 'a ndarray \<Rightarrow> side \<Rightarrow> nat ndarray" where
  "searchsorted a v sd = \<lparr>shape = shape v, data = map (insertion_point sd (data a)) (data v)\<rparr>"

text \<open>
  Element-wise comparison of two arrays of the same shape (\<open>==\<close> and \<open>!=\<close>), and
  element-wise negation.
\<close>

definition eq_array :: "'a ndarray \<Rightarrow> 'a ndarray \<Rightarrow> bool ndarray" where
  "eq_array a b = \<lparr>shape = shape a, data = map2 (\<lambda>x y. x = y) (data a) (data b)\<rparr>"

definition ne_array :: "'a ndarray \<Rightarrow> 'a ndarray \<Rightarrow> bool ndarray" where
  "ne_array a b = \<lparr>shape = shape a, data = map2 (\<lambda>x y. x \<noteq> y) (data a) (data b)\<rparr>"

definition logical_not :: "bool ndarray \<Rightarrow> bool ndarray" where
  "logical_not a = \<lparr>shape = shape a, data = map Not (data a)\<rparr>"

text \<open>
  Modelled from the spec: \<open>cupy.unique\<close> is not part of the source file. Section 6
  gives \<open>unique(array, return_index?) -> (sorted unique array, optional first-occurrence
  indices)\<close>; the input is flattened and the indices refer to the flattened input.
\<close>

definition first_index :: "'a list \<Rightarrow> 'a \<Rightarrow> nat" where
  "first_index xs v = length (takeWhile (\<lambda>x. x \<noteq> v) xs)"

definition unique_array :: "'a::linorder ndarray \<Rightarrow> 'a ndarray" where
  "unique_array a = array1 (sort (remdups (data a)))"

definition unique_index :: "'a::linorder ndarray \<Rightarrow> 'a ndarray \<times> int ndarray" where
  "unique_index a =
     (let u = sort (remdups (data a))
      in (array1 u, array1 (map (\<lambda>v. int (first_index (data a) v)) u)))"

text \<open>
  Modelled from the spec: \<open>cupy.concatenate\<close> is not part of the source file. It
  produces a fresh buffer holding the first array's elements followed by the second's
  (section 4.2, step 3). Along axis 0 it is applied to one-dimensional arrays only; with
  \<open>axis=None\<close> the inputs are flattened first (section 4.3).
\<close>

definition concatenate :: "'a ndarray \<Rightarrow> 'a ndarray \<Rightarrow> 'a ndarray" where
  "concatenate a b = array1 (data a @ data b)"

definition concatenate_flat :: "'a ndarray \<Rightarrow> 'a ndarray \<Rightarrow> 'a ndarray" where
  "concatenate_flat a b = concatenate (ravel a) (ravel b)"

text \<open>
  Modelled from the spec: \<open>cupy.argsort\<close> is not part of the source file. It
  produces the permutation of positions that sorts a one-dimensional array, with stable
  tie-breaking: among equal values the relative order of positions is preserved
  (section 4.2, step 4).
\<close>

definition stable_order :: "'a::linorder list \<Rightarrow> nat list" where
  "stable_order xs = sort_key (\<lambda>i. xs ! i) [0..<length xs]"

definition argsort :: "'a::linorder ndarray \<Rightarrow> int ndarray" where
  "argsort a = array1 (map int (stable_order (data a)))"

text \<open>
  Modelled from the spec: indexing and slicing belong to the array container, which is
  not part of the source file. \<open>a[idx]\<close> with an integer array reads the one-dimensional
  array at each position, a negative position counting from the end; a position outside
  the array is an error here, so that every lookup being in bounds is a proof obligation.
  \<open>a[m]\<close> with a boolean mask of the same length keeps the elements where the mask is
  true. \<open>a[1:]\<close> and \<open>a[:-1]\<close> drop the first and the last element (an empty array
  stays empty).
\<close>

definition index_valid :: "nat \<Rightarrow> int \<Rightarrow> bool" where
  "index_valid n i = (- int n \<le> i \<and> i < int n)"

definition index_get :: "'a list \<Rightarrow> int \<Rightarrow> 'a" where
  "index_get xs i = xs ! nat (if i < 0 then int (length xs) + i else i)"

definition take_indices :: "'a ndarray \<Rightarrow> int ndarray \<Rightarrow> error + 'a ndarray" where
  "take_indices a idx =
     (if list_all (index_valid (length (data a))) (data idx)
      then Inr \<lparr>shape = shape idx, data = map (index_get (data a)) (data idx)\<rparr>
      else Inl IndexError)"

definition mask_select :: "'a ndarray \<Rightarrow> bool ndarray \<Rightarrow> error + 'a ndarray" where
  "mask_select a m =
     (if length (data m) = length (data a)
      then Inr (array1 (map fst (filter snd (zip (data a) (data m)))))
      else Inl IndexError)"

definition slice_from1 :: "'a ndarray \<Rightarrow> 'a ndarray" where
  "slice_from1 a = array1 (tl (data a))"

definition slice_butlast :: "'a ndarray \<Rightarrow> 'a ndarray" where
  "slice_butlast a = array1 (butlast (data a))"

text \<open>Subtracting a scalar from every entry of an index array.\<close>

definition sub_scalar :: "int ndarray \<Rightarrow> nat \<Rightarrow> int ndarray" where
  "sub_scalar idx n = \<lparr>shape = shape idx, data = map (\<lambda>i. i - int n) (data idx)\<rparr>"

section \<open>The reductions all and any\<close>

text \<open>
  The fusion state, the fused reduction, the argument check and the array's own
  reduction method are not part of the source file; they are taken as parameters. The
  world \<open>'w\<close> is whatever these collaborators read and change, so that work done by any
  of them shows as a change of the world; \<open>is_fusing\<close> only reads it.
\<close>

datatype reduction = All | Any

record ('w, 'arr, 'ax, 'r) runtime =
  is_fusing :: "'w \<Rightarrow> bool"
  call_reduction :: "reduction \<Rightarrow> 'arr \<Rightarrow> 'ax \<Rightarrow> 'arr option \<Rightarrow> 'w \<Rightarrow> (error + 'r) \<times> 'w"
  check_array :: "'arr \<Rightarrow> 'w \<Rightarrow> (error + unit) \<times> 'w"
  reduce_method :: "reduction \<Rightarrow> 'arr \<Rightarrow> 'ax \<Rightarrow> 'arr option \<Rightarrow> bool \<Rightarrow> 'w \<Rightarrow> (error + 'r) \<times> 'w"

definition all_reduce ::
  "('w, 'arr, 'ax, 'r) runtime \<Rightarrow> 'arr \<Rightarrow> 'ax \<Rightarrow> 'arr option \<Rightarrow> bool \<Rightarrow> 'w \<Rightarrow> (error + 'r) \<times> 'w" where
  "all_reduce rt a axis out keepdims w =
     (if is_fusing rt w then
        (if keepdims then
           (Inl (NotImplementedError ''cupy.all does not support `keepdims` in fusion yet.''), w)
         else call_reduction rt All a axis out w)
      else
        (case check_array rt a w of
           (Inl e, w') \<Rightarrow> (Inl e, w')
         | (Inr u, w') \<Rightarrow> reduce_method rt All a axis out keepdims w'))"

definition any_reduce ::
  "('w, 'arr, 'ax, 'r) runtime \<Rightarrow> 'arr \<Rightarrow> 'ax \<Rightarrow> 'arr option \<Rightarrow> bool \<Rightarrow> 'w \<Rightarrow> (error + 'r) \<times> 'w" where
  "any_reduce rt a axis out keepdims w =
     (if is_fusing rt w then
        (if keepdims then
           (Inl (NotImplementedError ''cupy.any does not support `keepdims` in fusion yet.''), w)
         else call_reduction rt Any a axis out w)
      else
        (case check_array rt a w of
           (Inl e, w') \<Rightarrow> (Inl e, w')
         | (Inr u, w') \<Rightarrow> reduce_method rt Any a axis out keepdims w'))"

text \<open>
  An example runtime: the world is the list of collaborator calls made so far, and
  fusion is active.
\<close>

definition logging_runtime :: "(string list, int ndarray, nat option, bool) runtime" where
  "logging_runtime =
     \<lparr>is_fusing = (\<lambda>w. True),
      call_reduction = (\<lambda>r a axis out w. (Inr True, w @ [''call_reduction''])),
      check_array = (\<lambda>a w. (Inr (), w @ [''check_array''])),
      reduce_method = (\<lambda>r a axis out keepdims w. (Inr True, w @ [''reduce'']))\<rparr>"

section \<open>Membership: in1d and isin\<close>

definition in1d :: "'a::linorder ndarray \<Rightarrow> 'a ndarray \<Rightarrow> bool \<Rightarrow> bool \<Rightarrow> bool ndarray" where
  "in1d ar1_in ar2_in assume_unique invert =
     (let ar1 = ravel ar1_in;
          ar2 = ravel ar2_in
      in if asize ar1 = 0 \<or> asize ar2 = 0 then
           (if invert then ones (shape ar1) else zeros (shape ar1))
         else
           (let ar2 = sort_array ar2;
                v1 = searchsorted ar2 ar1 SLeft;
                v2 = searchsorted ar2 ar1 SRight
            in if invert then eq_array v1 v2 else ne_array v1 v2))"

definition isin :: "'a::linorder ndarray \<Rightarrow> 'a ndarray \<Rightarrow> bool \<Rightarrow> bool \<Rightarrow> error + bool ndarray" where
  "isin element test_elements assume_unique invert =
     reshape (in1d element test_elements assume_unique invert) (shape element)"

section \<open>Intersection\<close>

text \<open>
  \<open>intersect1d\<close> returns either the array of common values or that array with the two
  index arrays.
\<close>

datatype 'a intersect_result =
  Values "'a ndarray"
| WithIndices "'a ndarray" "int ndarray" "int ndarray"

text \<open>
  The first step (the \<open>assume_unique\<close> branches): each input is replaced by its sorted
  unique form, with the first-occurrence indices when indices are requested, or is only
  flattened. \<open>ind1\<close> and \<open>ind2\<close> stay unassigned in the other branches.
\<close>

definition dedup_inputs ::
  "'a::linorder ndarray \<Rightarrow> 'a ndarray \<Rightarrow> bool \<Rightarrow> bool \<Rightarrow>
   'a ndarray \<times> int ndarray option \<times> 'a ndarray \<times> int ndarray option" where
  "dedup_inputs arr1 arr2 assume_unique return_indices =
     (if \<not> assume_unique then
        (if return_indices then
           (let (arr1, ind1) = unique_index arr1;
                (arr2, ind2) = unique_index arr2
            in (arr1, Some ind1, arr2, Some ind2))
         else
           (let arr1 = unique_array arr1;
                arr2 = unique_array arr2
            in (arr1, None, arr2, None)))
      else
        (let arr1 = ravel arr1;
             arr2 = ravel arr2
         in (arr1, None, arr2, None)))"

text \<open>
  The middle step: concatenate, sort (keeping the permutation when indices are
  requested), compare neighbours, and select the common values and their positions in
  the two concatenated arrays. The positions stay unassigned when no indices are
  requested.
\<close>

definition common_positions ::
  "'a::linorder ndarray \<Rightarrow> 'a ndarray \<Rightarrow> bool \<Rightarrow>
   error + ('a ndarray \<times> (int ndarray \<times> int ndarray) option)" where
  "common_positions arr1 arr2 return_indices =
     (let aux = concatenate arr1 arr2
      in bind_err
           (if return_indices then
              (let aux_sort_indices = argsort aux
               in bind_err (take_indices aux aux_sort_indices)
                    (\<lambda>aux. Inr (aux, Some aux_sort_indices)))
            else Inr (sort_array aux, None))
           (\<lambda>(aux, aux_sort_indices).
              let mask = eq_array (slice_from1 aux) (slice_butlast aux)
              in bind_err (mask_select (slice_butlast aux) mask) (\<lambda>int1d.
                 if return_indices then
                   bind_err (bound aux_sort_indices) (\<lambda>aux_sort_indices.
                   bind_err (mask_select (slice_butlast aux_sort_indices) mask) (\<lambda>arr1_indices.
                   bind_err (mask_select (slice_from1 aux_sort_indices) mask) (\<lambda>sel2.
                   let arr2_indices = sub_scalar sel2 (asize arr1)
                   in Inr (int1d, Some (arr1_indices, arr2_indices)))))
                 else Inr (int1d, None))))"

definition intersect1d ::
  "'a::linorder ndarray \<Rightarrow> 'a ndarray \<Rightarrow> bool \<Rightarrow> bool \<Rightarrow> error + 'a intersect_result" where
  "intersect1d arr1_in arr2_in assume_unique return_indices =
     (let (arr1, ind1, arr2, ind2) = dedup_inputs arr1_in arr2_in assume_unique return_indices
      in bind_err (common_positions arr1 arr2 return_indices) (\<lambda>(int1d, positions).
         if return_indices then
           bind_err (bound positions) (\<lambda>(arr1_indices, arr2_indices).
           bind_err
             (if \<not> assume_unique then
                bind_err (bound ind1) (\<lambda>ind1.
                bind_err (take_indices ind1 arr1_indices) (\<lambda>arr1_indices.
                bind_err (bound ind2) (\<lambda>ind2.
                bind_err (take_indices ind2 arr2_indices) (\<lambda>arr2_indices.
                Inr (arr1_indices, arr2_indices)))))
              else Inr (arr1_indices, arr2_indices))
             (\<lambda>(arr1_indices, arr2_indices). Inr (WithIndices int1d arr1_indices arr2_indices)))
         else Inr (Values int1d)))"

section \<open>Union\<close>

definition union1d :: "'a::linorder ndarray \<Rightarrow> 'a ndarray \<Rightarrow> 'a ndarray" where
  "union1d arr1 arr2 = unique_array (concatenate_flat arr1 arr2)"

section \<open>Arrays in a store\<close>

text \<open>
  To follow which arrays an operation writes to, element arrays live in a store of
  buffers and are handled through references; a reference is a buffer address with the
  shape under which the buffer is viewed, and two references with the same address are
  views of the same buffer. Boolean and index arrays are only ever created and read, so they
  stay values. A new buffer is placed at the next free address.
\<close>

record 'a store =
  cells :: "nat \<Rightarrow> 'a list option"
  next_free :: nat

record aref =
  addr :: nat
  ashape :: "nat list"

definition contents :: "'a store \<Rightarrow> nat \<Rightarrow> 'a list" where
  "contents s p = (case cells s p of None \<Rightarrow> [] | Some xs \<Rightarrow> xs)"

definition load :: "'a store \<Rightarrow> aref \<Rightarrow> 'a ndarray" where
  "load s r = \<lparr>shape = ashape r, data = contents s (addr r)\<rparr>"

definition alloc :: "'a store \<Rightarrow> 'a ndarray \<Rightarrow> aref \<times> 'a store" where
  "alloc s a =
     (\<lparr>addr = next_free s, ashape = shape a\<rparr>,
      s\<lparr>cells := (cells s)(next_free s \<mapsto> data a), next_free := Suc (next_free s)\<rparr>)"

text \<open>
  \<open>arr.ravel()\<close> gives a one-dimensional view of the same buffer (were it a copy, it
  would share less); \<open>aux.sort()\<close> sorts
  the buffer of \<open>aux\<close> in place (section 4.2, step 4). Every other collaborator produces a
  fresh array (sections 3 and 5), so it reads its arguments from the store and allocates
  its result.
\<close>

definition ravel_view :: "'a store \<Rightarrow> aref \<Rightarrow> aref" where
  "ravel_view s r = \<lparr>addr = addr r, ashape = shape (ravel (load s r))\<rparr>"

definition sort_inplace :: "'a::linorder store \<Rightarrow> aref \<Rightarrow> 'a store" where
  "sort_inplace s r = s\<lparr>cells := (cells s)(addr r \<mapsto> data (sort_array (load s r)))\<rparr>"

text \<open>
  A reference is allocated when its buffer exists; a later store leaves an earlier one
  untouched when every buffer of the earlier store has the same contents in the later.
\<close>

definition allocated :: "'a store \<Rightarrow> aref \<Rightarrow> bool" where
  "allocated s r = (addr r < next_free s)"

definition untouched :: "'a store \<Rightarrow> 'a store \<Rightarrow> bool" where
  "untouched s s' = list_all (\<lambda>p. cells s' p = cells s p) [0..<next_free s]"

text \<open>The four public operations, statement by statement, on the store.\<close>

definition in1d_st ::
  "'a::linorder store \<Rightarrow> aref \<Rightarrow> aref \<Rightarrow> bool \<Rightarrow> bool \<Rightarrow> bool ndarray \<times> 'a store" where
  "in1d_st s ar1_in ar2_in assume_unique invert =
     (let ar1 = ravel_view s ar1_in;
          ar2 = ravel_view s ar2_in
      in if asize (load s ar1) = 0 \<or> asize (load s ar2) = 0 then
           ((if invert then ones (ashape ar1) else zeros (ashape ar1)), s)
         else
           (let (ar2, s) = alloc s (sort_array (load s ar2));
                v1 = searchsorted (load s ar2) (load s ar1) SLeft;
                v2 = searchsorted (load s ar2) (load s ar1) SRight
            in ((if invert then eq_array v1 v2 else ne_array v1 v2), s)))"

definition isin_st ::
  "'a::linorder store \<Rightarrow> aref \<Rightarrow> aref \<Rightarrow> bool \<Rightarrow> bool \<Rightarrow> (error + bool ndarray) \<times> 'a store" where
  "isin_st s element test_elements assume_unique invert =
     (let (r, s) = in1d_st s element test_elements assume_unique invert
      in (reshape r (ashape element), s))"

definition union1d_st :: "'a::linorder store \<Rightarrow> aref \<Rightarrow> aref \<Rightarrow> aref \<times> 'a store" where
  "union1d_st s arr1 arr2 =
     (let (c, s) = alloc s (concatenate_flat (load s arr1) (load s arr2))
      in alloc s (unique_array (load s c)))"

datatype intersect_ref = ValuesRef aref | WithIndicesRef aref "int ndarray" "int ndarray"

definition dedup_inputs_st ::
  "'a::linorder store \<Rightarrow> aref \<Rightarrow> aref \<Rightarrow> bool \<Rightarrow> bool \<Rightarrow>
   (aref \<times> int ndarray option \<times> aref \<times> int ndarray option) \<times> 'a store" where
  "dedup_inputs_st s arr1_in arr2_in assume_unique return_indices =
     (if \<not> assume_unique then
        (if return_indices then
           (let (u1, ind1) = unique_index (load s arr1_in);
                (arr1, s) = alloc s u1;
                (u2, ind2) = unique_index (load s arr2_in);
                (arr2, s) = alloc s u2
            in ((arr1, Some ind1, arr2, Some ind2), s))
         else
           (let (arr1, s) = alloc s (unique_array (load s arr1_in));
                (arr2, s) = alloc s (unique_array (load s arr2_in))
            in ((arr1, None, arr2, None), s)))
      else
        (let arr1 = ravel_view s arr1_in;
             arr2 = ravel_view s arr2_in
         in ((arr1, None, arr2, None), s)))"

definition common_positions_st ::
  "'a::linorder store \<Rightarrow> aref \<Rightarrow> aref \<Rightarrow> bool \<Rightarrow>
   (error + (aref \<times> (int ndarray \<times> int ndarray) option)) \<times> 'a store" where
  "common_positions_st s arr1 arr2 return_indices =
     (let (aux, s) = alloc s (concatenate (load s arr1) (load s arr2))
      in case (if return_indices then
                 (let aux_sort_indices = argsort (load s aux)
                  in case take_indices (load s aux) aux_sort_indices of
                       Inl e \<Rightarrow> (Inl e, s)
                     | Inr a \<Rightarrow> (let (aux, s) = alloc s a in (Inr (aux, Some aux_sort_indices), s)))
               else (Inr (aux, None), sort_inplace s aux)) of
           (Inl e, s) \<Rightarrow> (Inl e, s)
         | (Inr (aux, aux_sort_indices), s) \<Rightarrow>
             (let mask = eq_array (slice_from1 (load s aux)) (slice_butlast (load s aux))
              in case mask_select (slice_butlast (load s aux)) mask of
                   Inl e \<Rightarrow> (Inl e, s)
                 | Inr v \<Rightarrow>
                     (let (int1d, s) = alloc s v
                      in if return_indices then
                           (bind_err (bound aux_sort_indices) (\<lambda>aux_sort_indices.
                            bind_err (mask_select (slice_butlast aux_sort_indices) mask) (\<lambda>arr1_indices.
                            bind_err (mask_select (slice_from1 aux_sort_indices) mask) (\<lambda>sel2.
                            let arr2_indices = sub_scalar sel2 (asize (load s arr1))
                            in Inr (int1d, Some (arr1_indices, arr2_indices))))), s)
                         else (Inr (int1d, None), s))))"

definition intersect1d_st ::
  "'a::linorder store \<Rightarrow> aref \<Rightarrow> aref \<Rightarrow> bool \<Rightarrow> bool \<Rightarrow> (error + intersect_ref) \<times> 'a store" where
  "intersect1d_st s arr1_in arr2_in assume_unique return_indices =
     (let ((arr1, ind1, arr2, ind2), s) = dedup_inputs_st s arr1_in arr2_in assume_unique return_indices;
          (r, s) = common_positions_st s arr1 arr2 return_indices
      in (bind_err r (\<lambda>(int1d, positions).
            if return_indices then
              bind_err (bound positions) (\<lambda>(arr1_indices, arr2_indices).
              bind_err
                (if \<not> assume_unique then
                   bind_err (bound ind1) (\<lambda>ind1.
                   bind_err (take_indices ind1 arr1_indices) (\<lambda>arr1_indices.
                   bind_err (bound ind2) (\<lambda>ind2.
                   bind_err (take_indices ind2 arr2_indices) (\<lambda>arr2_indices.
                   Inr (arr1_indices, arr2_indices)))))
                 else Inr (arr1_indices, arr2_indices))
                (\<lambda>(arr1_indices, arr2_indices). Inr (WithIndicesRef int1d arr1_indices arr2_indices)))
            else Inr (ValuesRef int1d)), s))"

text \<open>An example store, holding two three-element arrays.\<close>

definition example_store :: "int store" where
  "example_store = \<lparr>cells = [0 \<mapsto> [3, 1, 2], 1 \<mapsto> [2, 3, 4]], next_free = 2\<rparr>"

section \<open>Notions used in the statements and proofs\<close>

text \<open>
  The neighbouring pairs of a list, in order; the pairs of positions that the neighbour
  comparison of \<open>intersect1d\<close> selects from the stable order of the concatenation; and
  the values of a list that equal their successor.
\<close>

definition adjacent_pairs :: "'b list \<Rightarrow> ('b \<times> 'b) list" where
  "adjacent_pairs p = zip (butlast p) (tl p)"

definition common_pairs :: "'a::linorder list \<Rightarrow> (nat \<times> nat) list" where
  "common_pairs a = filter (\<lambda>(i, j). a ! j = a ! i) (adjacent_pairs (stable_order a))"

definition dups :: "'a list \<Rightarrow> 'a list" where
  "dups s = map fst (filter (\<lambda>(x, y). y = x) (adjacent_pairs s))"

text \<open>Positions ordered by their value first and by themselves second.\<close>

definition key_then_pos :: "(nat \<Rightarrow> 'a::linorder) \<Rightarrow> nat \<Rightarrow> nat \<Rightarrow> bool" where
  "key_then_pos f i j = (f i < f j \<or> (f i = f j \<and> i < j))"

text \<open>
  \<open>i\<close> is the index of the first occurrence of \<open>v\<close> in \<open>xs\<close>: a valid position that
  holds \<open>v\<close>, with no \<open>v\<close> before it.
\<close>

definition first_occurrence :: "'a list \<Rightarrow> 'a \<Rightarrow> int \<Rightarrow> bool" where
  "first_occurrence xs v i =
     (0 \<le> i \<and> nat i < length xs \<and> xs ! nat i = v \<and> list_all (\<lambda>x. x \<noteq> v) (take (nat i) xs))"

text \<open>The array of common values of either form of result.\<close>

definition result_values :: "'a intersect_result \<Rightarrow> 'a ndarray" where
  "result_values r = (case r of Values v \<Rightarrow> v | WithIndices v c1 c2 \<Rightarrow> v)"

text \<open>
  A later store extends an earlier one when it has allocated no less and agrees with it on
  every buffer of the earlier one; and the result of the store-level \<open>intersect1d\<close> read
  back as values.
\<close>

definition extends :: "'a store \<Rightarrow> 'a store \<Rightarrow> bool" where
  "extends s s' = (next_free s \<le> next_free s' \<and> (\<forall>p<next_free s. cells s' p = cells s p))"

definition load_result :: "'a store \<Rightarrow> intersect_ref \<Rightarrow> 'a intersect_result" where
  "load_result s r =
     (case r of ValuesRef v \<Rightarrow> Values (load s v)
      | WithIndicesRef v c1 c2 \<Rightarrow> WithIndices (load s v) c1 c2)"

section \<open>Properties of the collaborators\<close>

lemma insertion_point_differs:
  "sorted xs \<Longrightarrow> (insertion_point SLeft xs v \<noteq> insertion_point SRight xs v) = (v \<in> set xs)"
proof (induction xs)
  case Nil
  then show ?case by simp
next
  case (Cons x xs)
  show ?case
  proof (cases "x < v")
    case True
    with Cons show ?thesis by auto
  next
    case False
    show ?thesis
    proof (cases "x = v")
      case True
      then show ?thesis by simp
    next
      case False
      with \<open>\<not> x < v\<close> have "v < x" by simp
      with Cons.prems have "v \<notin> set (x # xs)" by auto
      with \<open>v < x\<close> show ?thesis by auto
    qed
  qed
qed

lemma map2_same: "map2 f (map g xs) (map h xs) = map (\<lambda>x. f (g x) (h x)) xs"
  by (induction xs) auto

lemma in1d_data:
  "data (in1d Q R au iv) = map (\<lambda>q. (q \<in> set (data R)) \<noteq> iv) (data Q)"
proof (cases "data Q = [] \<or> data R = []")
  case True
  then show ?thesis
    by (auto simp: in1d_def ravel_def array1_def asize_def ones_def zeros_def Let_def
        map_replicate_const [symmetric])
next
  case False
  have "\<And>q. (insertion_point SLeft (sort (data R)) q \<noteq> insertion_point SRight (sort (data R)) q)
      = (q \<in> set (data R))"
    using insertion_point_differs [of "sort (data R)"] by simp
  with False show ?thesis
    by (auto simp: in1d_def ravel_def array1_def asize_def sort_array_def searchsorted_def
        eq_array_def ne_array_def map2_same Let_def simp del: insertion_point.simps)
qed

lemma in1d_shape: "shape (in1d Q R au iv) = [length (data Q)]"
  by (auto simp: in1d_def ravel_def array1_def asize_def ones_def zeros_def sort_array_def
      searchsorted_def eq_array_def ne_array_def Let_def)

lemma reshape_in1d:
  "wf_array x \<Longrightarrow>
   reshape (in1d x y au iv) (shape x) = Inr \<lparr>shape = shape x, data = data (in1d x y au iv)\<rparr>"
  by (simp add: reshape_def wf_array_def in1d_data)

section \<open>Sequencing\<close>

lemma bind_err_Inr [simp]: "bind_err (Inr x) f = f x"
  by (simp add: bind_err_def)

lemma bind_err_Inl [simp]: "bind_err (Inl e) f = Inl e"
  by (simp add: bind_err_def)

lemma bound_Some [simp]: "bound (Some x) = Inr x"
  by (simp add: bound_def)

section \<open>Neighbouring pairs\<close>

lemma adjacent_pairs_simps [simp]:
  "adjacent_pairs [] = []"
  "adjacent_pairs [x] = []"
  "adjacent_pairs (x # y # zs) = (x, y) # adjacent_pairs (y # zs)"
  by (simp_all add: adjacent_pairs_def)

lemma length_adjacent_pairs: "length (adjacent_pairs p) = length p - 1"
  by (simp add: adjacent_pairs_def)

lemma set_adjacent_pairs: "(i, j) \<in> set (adjacent_pairs p) \<Longrightarrow> i \<in> set p \<and> j \<in> set p"
  by (induction p rule: induct_list012) auto

lemma adjacent_pairs_sorted_wrt:
  "sorted_wrt R p \<Longrightarrow> (i, j) \<in> set (adjacent_pairs p) \<Longrightarrow> R i j"
  by (induction p rule: induct_list012) auto

lemma neighbour_mask:
  "map2 (\<lambda>x y. x = y) (tl (map f p)) (butlast (map f p))
   = map (\<lambda>(i, j). f j = f i) (adjacent_pairs p)"
  by (induction p rule: induct_list012) auto

lemma select_first:
  "map fst (filter snd (zip (butlast (map g p)) (map (\<lambda>(i, j). f j = f i) (adjacent_pairs p))))
   = map (\<lambda>(i, j). g i) (filter (\<lambda>(i, j). f j = f i) (adjacent_pairs p))"
  by (induction p rule: induct_list012) auto

lemma select_second:
  "map fst (filter snd (zip (tl (map g p)) (map (\<lambda>(i, j). f j = f i) (adjacent_pairs p))))
   = map (\<lambda>(i, j). g j) (filter (\<lambda>(i, j). f j = f i) (adjacent_pairs p))"
  by (induction p rule: induct_list012) auto

lemma common_values_dups:
  "map (\<lambda>(i, j). f i) (filter (\<lambda>(i, j). f j = f i) (adjacent_pairs p)) = dups (map f p)"
  by (induction p rule: induct_list012) (auto simp: dups_def)

section \<open>The stable order\<close>

lemma insort_key_lex:
  "sorted_wrt (key_then_pos f) ys \<Longrightarrow> \<forall>y\<in>set ys. x < y \<Longrightarrow>
   sorted_wrt (key_then_pos f) (insort_key f x ys)"
  by (induction ys) (auto simp: set_insort_key key_then_pos_def)

lemma sort_key_lex:
  "sorted_wrt (<) xs \<Longrightarrow> sorted_wrt (key_then_pos f) (sort_key f xs)"
  by (induction xs) (auto simp: insort_key_lex)

lemma stable_order_lex: "sorted_wrt (key_then_pos ((!) a)) (stable_order a)"
  unfolding stable_order_def by (rule sort_key_lex) simp

lemma set_stable_order: "set (stable_order a) = {..<length a}"
  by (auto simp: stable_order_def)

lemma map_nth_stable_order: "map ((!) a) (stable_order a) = sort a"
proof (rule properties_for_sort [symmetric])
  have "mset (map ((!) a) (stable_order a)) = mset (map ((!) a) [0..<length a])"
    by (simp add: stable_order_def)
  then show "mset (map ((!) a) (stable_order a)) = mset a"
    by (simp add: map_nth)
  show "sorted (map ((!) a) (stable_order a))"
    unfolding stable_order_def by (rule sorted_sort_key)
qed

lemma common_pairs_values: "map (\<lambda>(i, j). a ! i) (common_pairs a) = dups (sort a)"
  unfolding common_pairs_def common_values_dups map_nth_stable_order ..

lemma length_common_pairs: "length (common_pairs a) = length (dups (sort a))"
  using arg_cong [OF common_pairs_values [of a], of length] by simp

text \<open>
  Among neighbours of equal value in the stable order of a concatenation of two
  duplicate-free lists, the first position lies in the first list and the second in the
  second list.
\<close>

lemma common_pairs_split:
  assumes "distinct xs" "distinct ys" and "(i, j) \<in> set (common_pairs (xs @ ys))"
  shows "i < length xs \<and> length xs \<le> j \<and> j < length xs + length ys
     \<and> xs ! i = ys ! (j - length xs)"
proof -
  let ?a = "xs @ ys"
  have adj: "(i, j) \<in> set (adjacent_pairs (stable_order ?a))" and eq: "?a ! j = ?a ! i"
    using assms(3) by (auto simp: common_pairs_def)
  have "key_then_pos ((!) ?a) i j"
    using stable_order_lex adj by (rule adjacent_pairs_sorted_wrt)
  with eq have lt: "i < j"
    by (simp add: key_then_pos_def)
  have "i \<in> set (stable_order ?a) \<and> j \<in> set (stable_order ?a)"
    using adj by (rule set_adjacent_pairs)
  then have jn: "j < length xs + length ys"
    by (simp add: set_stable_order)
  have i1: "i < length xs"
  proof (rule ccontr)
    assume "\<not> i < length xs"
    with lt jn eq have "ys ! (j - length xs) = ys ! (i - length xs)"
      and "j - length xs < length ys" and "i - length xs < length ys"
      and "j - length xs \<noteq> i - length xs"
      by (auto simp: nth_append)
    with assms(2) show False
      by (simp add: nth_eq_iff_index_eq)
  qed
  have j2: "length xs \<le> j"
  proof (rule ccontr)
    assume "\<not> length xs \<le> j"
    with lt eq have "xs ! j = xs ! i" and "j < length xs" and "i < length xs" and "j \<noteq> i"
      by (auto simp: nth_append)
    with assms(1) show False
      by (simp add: nth_eq_iff_index_eq)
  qed
  from i1 j2 eq have "xs ! i = ys ! (j - length xs)"
    by (simp add: nth_append)
  with i1 j2 jn show ?thesis by simp
qed

section \<open>Values equal to their successor in a sorted list\<close>

lemma dups_simps [simp]:
  "dups [] = []"
  "dups [x] = []"
  "dups (x # y # zs) = (if y = x then x # dups (y # zs) else dups (y # zs))"
  by (simp_all add: dups_def)

lemma set_dups_subset: "set (dups s) \<subseteq> set s"
  by (induction s rule: induct_list012) auto

lemma sorted_dups: "sorted s \<Longrightarrow> sorted (dups s)"
proof (induction s rule: induct_list012)
  case (3 x y zs)
  have "set (dups (y # zs)) \<subseteq> set (y # zs)"
    by (rule set_dups_subset)
  with 3 show ?case by auto
qed simp_all

lemma set_dups: "sorted s \<Longrightarrow> set (dups s) = {v. 2 \<le> count_list s v}"
proof (induction s rule: induct_list012)
  case (3 x y zs)
  then have ih: "set (dups (y # zs)) = {v. 2 \<le> count_list (y # zs) v}"
    by simp
  show ?case
  proof (cases "y = x")
    case True
    with ih show ?thesis by auto
  next
    case False
    with 3(3) have "x \<notin> set (y # zs)" by auto
    then have "count_list (y # zs) x = 0" by (rule count_notin)
    with False ih show ?thesis by auto
  qed
qed simp_all

lemma distinct_dups:
  "sorted s \<Longrightarrow> \<forall>v. count_list s v \<le> 2 \<Longrightarrow> distinct (dups s)"
proof (induction s rule: induct_list012)
  case (3 x y zs)
  have c: "\<forall>v. count_list (y # zs) v \<le> 2"
  proof
    fix v
    have "count_list (y # zs) v \<le> count_list (x # y # zs) v" by simp
    also have "\<dots> \<le> 2" using 3(4) by blast
    finally show "count_list (y # zs) v \<le> 2" .
  qed
  with 3 have d: "distinct (dups (y # zs))" by simp
  show ?case
  proof (cases "y = x")
    case True
    have "count_list (x # y # zs) x \<le> 2" using 3(4) by blast
    with True have "count_list (y # zs) x \<le> 1" by simp
    then have "x \<notin> set (dups (y # zs))"
      using set_dups [of "y # zs"] 3(3) by auto
    with True d show ?thesis by simp
  next
    case False
    with d show ?thesis by simp
  qed
qed simp_all

lemma count_list_distinct: "distinct xs \<Longrightarrow> count_list xs v = (if v \<in> set xs then 1 else 0)"
  by (induction xs) auto

lemma count_list_sort: "count_list (sort xs) v = count_list xs v"
proof -
  have "count (mset (sort xs)) v = count (mset xs) v" by simp
  then show ?thesis by (simp only: count_mset count_list_eq_length_filter)
qed

lemma dups_sort_append:
  assumes "distinct xs" "distinct ys"
  shows "sorted (dups (sort (xs @ ys)))"
    and "distinct (dups (sort (xs @ ys)))"
    and "set (dups (sort (xs @ ys))) = set xs \<inter> set ys"
proof -
  have c: "\<And>v. count_list (sort (xs @ ys)) v
      = (if v \<in> set xs then 1 else 0) + (if v \<in> set ys then 1 else 0)"
    using assms by (simp add: count_list_sort count_list_distinct)
  show "sorted (dups (sort (xs @ ys)))"
    by (simp add: sorted_dups)
  show "distinct (dups (sort (xs @ ys)))"
    by (rule distinct_dups) (simp_all add: c)
  show "set (dups (sort (xs @ ys))) = set xs \<inter> set ys"
    by (auto simp: set_dups c split: if_splits)
qed

section \<open>Indexing\<close>

lemma takeWhile_stops: "x \<in> set xs \<Longrightarrow> \<not> P x \<Longrightarrow> length (takeWhile P xs) < length xs"
  by (induction xs) auto

lemma first_index_first_occurrence:
  assumes "v \<in> set xs"
  shows "first_occurrence xs v (int (first_index xs v))"
proof -
  let ?n = "length (takeWhile (\<lambda>x. x \<noteq> v) xs)"
  have lt: "?n < length xs"
    using assms by (rule takeWhile_stops) simp
  then have "\<not> (xs ! ?n \<noteq> v)"
    by (rule nth_length_takeWhile)
  moreover have "take ?n xs = takeWhile (\<lambda>x. x \<noteq> v) xs"
    by (rule takeWhile_eq_take [symmetric])
  moreover have "\<forall>x\<in>set (takeWhile (\<lambda>x. x \<noteq> v) xs). x \<noteq> v"
    by (auto dest: set_takeWhileD)
  ultimately show ?thesis
    using lt by (simp add: first_occurrence_def first_index_def list_all_iff)
qed

lemma take_indices_nat:
  "set js \<subseteq> {..<length xs} \<Longrightarrow>
   take_indices (array1 xs) (array1 (map int js)) = Inr (array1 (map ((!) xs) js))"
  by (auto simp: take_indices_def array1_def list_all_iff index_valid_def index_get_def)

lemma take_indices_map:
  assumes "\<forall>z\<in>set sel. 0 \<le> h z \<and> h z < int (length zs)"
  shows "take_indices (array1 zs) (array1 (map h sel)) = Inr (array1 (map (\<lambda>z. zs ! nat (h z)) sel))"
  using assms
  by (auto simp: take_indices_def array1_def list_all_iff index_valid_def index_get_def)

lemma neighbour_mask_array:
  "eq_array (slice_from1 (array1 (map f p))) (slice_butlast (array1 (map f p)))
   = array1 (map (\<lambda>(i, j). f j = f i) (adjacent_pairs p))"
  by (simp add: eq_array_def slice_from1_def slice_butlast_def array1_def neighbour_mask
      length_adjacent_pairs)

lemma mask_select_first:
  "mask_select (slice_butlast (array1 (map g p)))
     (array1 (map (\<lambda>(i, j). f j = f i) (adjacent_pairs p)))
   = Inr (array1 (map (\<lambda>(i, j). g i) (filter (\<lambda>(i, j). f j = f i) (adjacent_pairs p))))"
  by (simp add: mask_select_def slice_butlast_def array1_def length_adjacent_pairs select_first)

lemma mask_select_second:
  "mask_select (slice_from1 (array1 (map g p)))
     (array1 (map (\<lambda>(i, j). f j = f i) (adjacent_pairs p)))
   = Inr (array1 (map (\<lambda>(i, j). g j) (filter (\<lambda>(i, j). f j = f i) (adjacent_pairs p))))"
  by (simp add: mask_select_def slice_from1_def array1_def length_adjacent_pairs select_second)

lemma sub_scalar_array1:
  "sub_scalar (array1 (map g zs)) n = array1 (map (\<lambda>z. g z - int n) zs)"
  by (simp add: sub_scalar_def array1_def)

section \<open>What intersect1d computes\<close>

lemma common_positions_indices:
  fixes arr1 arr2 :: "'a::linorder ndarray"
  defines "a \<equiv> data arr1 @ data arr2"
  shows "common_positions arr1 arr2 True =
     Inr (array1 (dups (sort a)),
          Some (array1 (map (\<lambda>(i, j). int i) (common_pairs a)),
                array1 (map (\<lambda>(i, j). int j - int (length (data arr1))) (common_pairs a))))"
proof -
  let ?p = "stable_order a"
  have s: "argsort (concatenate arr1 arr2) = array1 (map int ?p)"
    by (simp add: argsort_def concatenate_def array1_def a_def)
  have t: "take_indices (concatenate arr1 arr2) (array1 (map int ?p))
        = Inr (array1 (map ((!) a) ?p))"
    unfolding concatenate_def a_def [symmetric]
    by (rule take_indices_nat) (simp add: set_stable_order)
  have u: "sub_scalar (array1 (map (\<lambda>(i, j). int j) (filter (\<lambda>(i, j). a ! j = a ! i) (adjacent_pairs ?p))))
             (asize arr1)
         = array1 (map (\<lambda>(i, j). int j - int (length (data arr1))) (common_pairs a))"
    by (simp add: sub_scalar_array1 asize_def common_pairs_def split_def)
  have v: "map (\<lambda>(i, j). a ! i) (filter (\<lambda>(i, j). a ! j = a ! i) (adjacent_pairs ?p)) = dups (sort a)"
    using common_pairs_values [of a] by (simp add: common_pairs_def)
  show ?thesis
    unfolding common_positions_def Let_def s t
    by (simp only: bind_err_Inr bound_Some if_True case_prod_conv neighbour_mask_array
        mask_select_first mask_select_second u v)
      (simp add: common_pairs_def)
qed

lemma common_positions_values:
  "common_positions arr1 arr2 False = Inr (array1 (dups (sort (data arr1 @ data arr2))), None)"
proof -
  let ?a = "data arr1 @ data arr2"
  have s: "sort_array (concatenate arr1 arr2) = array1 (map ((!) ?a) (stable_order ?a))"
    by (simp add: sort_array_def concatenate_def array1_def map_nth_stable_order)
  show ?thesis
    unfolding common_positions_def Let_def s
    by (simp only: bind_err_Inr if_False case_prod_conv neighbour_mask_array
        mask_select_first)
      (simp only: common_values_dups map_nth_stable_order)
qed

lemma intersect1d_values:
  "intersect1d a b au False =
     Inr (Values (array1 (dups (sort ((if au then data a else sort (remdups (data a)))
                                     @ (if au then data b else sort (remdups (data b))))))))"
  by (simp add: intersect1d_def dedup_inputs_def common_positions_values
      unique_array_def ravel_def array1_def Let_def)

lemma intersect1d_unique_indices:
  "intersect1d a b True True =
     Inr (WithIndices (array1 (dups (sort (data a @ data b))))
       (array1 (map (\<lambda>(i, j). int i) (common_pairs (data a @ data b))))
       (array1 (map (\<lambda>(i, j). int j - int (length (data a))) (common_pairs (data a @ data b)))))"
  by (simp add: intersect1d_def dedup_inputs_def common_positions_indices
      ravel_def array1_def Let_def)

lemma intersect1d_dedup_indices:
  fixes a b :: "'a::linorder ndarray"
  defines "u1 \<equiv> sort (remdups (data a))"
  defines "u2 \<equiv> sort (remdups (data b))"
  shows "intersect1d a b False True =
     Inr (WithIndices (array1 (dups (sort (u1 @ u2))))
       (array1 (map (\<lambda>(i, j). int (first_index (data a) (u1 ! i))) (common_pairs (u1 @ u2))))
       (array1 (map (\<lambda>(i, j). int (first_index (data b) (u2 ! (j - length u1)))) (common_pairs (u1 @ u2)))))"
proof -
  let ?sel = "common_pairs (u1 @ u2)"
  have d: "distinct u1" "distinct u2"
    by (simp_all add: u1_def u2_def)
  have r: "\<forall>z\<in>set ?sel. fst z < length u1 \<and> length u1 \<le> snd z \<and> snd z < length u1 + length u2"
    using common_pairs_split [OF d] by auto
  have c: "common_positions (array1 u1) (array1 u2) True =
     Inr (array1 (dups (sort (u1 @ u2))),
          Some (array1 (map (\<lambda>(i, j). int i) ?sel),
                array1 (map (\<lambda>(i, j). int j - int (length u1)) ?sel)))"
    using common_positions_indices [of "array1 u1" "array1 u2"]
    by (simp add: array1_def)
  have "\<forall>z\<in>set ?sel. 0 \<le> (\<lambda>(i, j). int i) z
      \<and> (\<lambda>(i, j). int i) z < int (length (map (\<lambda>v. int (first_index (data a) v)) u1))"
    using r by (auto simp: split_def)
  from take_indices_map [OF this] r
  have t1: "take_indices (array1 (map (\<lambda>v. int (first_index (data a) v)) u1))
              (array1 (map (\<lambda>(i, j). int i) ?sel))
          = Inr (array1 (map (\<lambda>(i, j). int (first_index (data a) (u1 ! i))) ?sel))"
    by (simp add: split_def cong: map_cong)
  have "\<forall>z\<in>set ?sel. 0 \<le> (\<lambda>(i, j). int j - int (length u1)) z
      \<and> (\<lambda>(i, j). int j - int (length u1)) z < int (length (map (\<lambda>v. int (first_index (data b) v)) u2))"
    using r by (auto simp: split_def)
  from take_indices_map [OF this]
  have "take_indices (array1 (map (\<lambda>v. int (first_index (data b) v)) u2))
              (array1 (map (\<lambda>(i, j). int j - int (length u1)) ?sel))
          = Inr (array1 (map (\<lambda>z. map (\<lambda>v. int (first_index (data b) v)) u2
                   ! nat ((\<lambda>(i, j). int j - int (length u1)) z)) ?sel))" .
  also have "map (\<lambda>z. map (\<lambda>v. int (first_index (data b) v)) u2
                   ! nat ((\<lambda>(i, j). int j - int (length u1)) z)) ?sel
        = map (\<lambda>(i, j). int (first_index (data b) (u2 ! (j - length u1)))) ?sel"
  proof (rule map_cong [OF refl])
    fix z assume "z \<in> set ?sel"
    with r have "length u1 \<le> snd z" and "snd z - length u1 < length u2"
      by auto
    then show "map (\<lambda>v. int (first_index (data b) v)) u2 ! nat ((\<lambda>(i, j). int j - int (length u1)) z)
        = (\<lambda>(i, j). int (first_index (data b) (u2 ! (j - length u1)))) z"
      by (simp add: split_def nat_diff_distrib' flip: of_nat_diff)
  qed
  finally have t2: "take_indices (array1 (map (\<lambda>v. int (first_index (data b) v)) u2))
              (array1 (map (\<lambda>(i, j). int j - int (length u1)) ?sel))
          = Inr (array1 (map (\<lambda>(i, j). int (first_index (data b) (u2 ! (j - length u1)))) ?sel))" .
  show ?thesis
    unfolding intersect1d_def dedup_inputs_def unique_index_def Let_def
    by (simp add: u1_def [symmetric] u2_def [symmetric] c t1 t2)
qed

section \<open>The store\<close>

lemma untouched_iff: "untouched s s' = (\<forall>p<next_free s. cells s' p = cells s p)"
  by (auto simp: untouched_def list_all_iff)

lemma extends_refl [simp]: "extends s s"
  by (simp add: extends_def)

lemma extends_alloc: "extends s0 s \<Longrightarrow> extends s0 (snd (alloc s a))"
  by (auto simp: extends_def alloc_def)

lemma addr_alloc: "addr (fst (alloc s a)) = next_free s"
  by (simp add: alloc_def)

lemma extends_sort_inplace:
  "extends s0 s \<Longrightarrow> next_free s0 \<le> addr r \<Longrightarrow> extends s0 (sort_inplace s r)"
  by (auto simp: extends_def sort_inplace_def)

lemma extends_untouched: "extends s s' \<Longrightarrow> untouched s s'"
  by (simp add: extends_def untouched_iff)

lemma extends_load: "extends s s' \<Longrightarrow> allocated s r \<Longrightarrow> load s' r = load s r"
  by (simp add: extends_def allocated_def load_def contents_def)

lemma in1d_st_extends: "extends s0 s \<Longrightarrow> extends s0 (snd (in1d_st s q r au iv))"
  by (simp add: in1d_st_def Let_def split_def extends_alloc)

lemma isin_st_extends: "extends s0 s \<Longrightarrow> extends s0 (snd (isin_st s q r au iv))"
  by (simp add: isin_st_def Let_def split_def in1d_st_extends)

lemma union1d_st_extends: "extends s0 s \<Longrightarrow> extends s0 (snd (union1d_st s a b))"
  by (simp add: union1d_st_def Let_def split_def extends_alloc)

lemma dedup_inputs_st_extends:
  "extends s0 s \<Longrightarrow> extends s0 (snd (dedup_inputs_st s a b au ri))"
  by (simp add: dedup_inputs_st_def Let_def split_def extends_alloc)

lemma common_positions_st_extends:
  assumes "extends s0 s"
  shows "extends s0 (snd (common_positions_st s a b ri))"
proof -
  let ?c = "alloc s (concatenate (load s a) (load s b))"
  have e: "extends s0 (snd ?c)"
    using assms by (rule extends_alloc)
  have "next_free s0 \<le> addr (fst ?c)"
    using assms by (simp add: addr_alloc extends_def)
  with e have "extends s0 (sort_inplace (snd ?c) (fst ?c))"
    by (rule extends_sort_inplace)
  with e show ?thesis
    by (simp add: common_positions_st_def Let_def split_def extends_alloc
        split: sum.splits)
qed

lemma intersect1d_st_extends:
  "extends s0 s \<Longrightarrow> extends s0 (snd (intersect1d_st s a b au ri))"
  by (simp add: intersect1d_st_def Let_def split_def dedup_inputs_st_extends
      common_positions_st_extends)

lemma load_alloc_new [simp]: "load (snd (alloc s a)) (fst (alloc s a)) = a"
  by (simp add: load_def alloc_def contents_def)

lemma load_alloc_old [simp]: "allocated s r \<Longrightarrow> load (snd (alloc s a)) r = load s r"
  by (simp add: load_def alloc_def contents_def allocated_def)

lemma allocated_alloc_new [simp]: "allocated (snd (alloc s a)) (fst (alloc s a))"
  by (simp add: alloc_def allocated_def)

lemma allocated_alloc_old [simp]: "allocated s r \<Longrightarrow> allocated (snd (alloc s a)) r"
  by (simp add: alloc_def allocated_def)

lemma load_ravel_view [simp]: "load s (ravel_view s r) = ravel (load s r)"
  by (simp add: load_def ravel_view_def ravel_def array1_def)

lemma ashape_ravel_view [simp]: "ashape (ravel_view s r) = shape (ravel (load s r))"
  by (simp add: ravel_view_def)

lemma allocated_ravel_view [simp]: "allocated s (ravel_view s' r) = allocated s r"
  by (simp add: allocated_def ravel_view_def)

lemma load_sort_inplace [simp]: "load (sort_inplace s r) r = sort_array (load s r)"
  by (simp add: load_def sort_inplace_def contents_def sort_array_def)

text \<open>
  On allocated inputs the store-level operations compute what the value-level ones compute
  on the arrays read from the store.
\<close>

lemma in1d_st_refines:
  assumes "allocated s q" "allocated s r"
  shows "fst (in1d_st s q r au iv) = in1d (load s q) (load s r) au iv"
  using assms
  by (simp add: in1d_st_def in1d_def Let_def split_def)

lemma isin_st_refines:
  assumes "allocated s q" "allocated s r"
  shows "fst (isin_st s q r au iv) = isin (load s q) (load s r) au iv"
  using in1d_st_refines [OF assms]
  by (simp add: isin_st_def isin_def split_def load_def)

lemma union1d_st_refines:
  assumes "allocated s a" "allocated s b"
  shows "load (snd (union1d_st s a b)) (fst (union1d_st s a b)) = union1d (load s a) (load s b)"
  by (simp add: union1d_st_def union1d_def split_def)

lemma dedup_inputs_st_refines:
  assumes "allocated s a" "allocated s b"
  shows "\<exists>arr1 ind1 arr2 ind2 s1.
     dedup_inputs_st s a b au ri = ((arr1, ind1, arr2, ind2), s1)
     \<and> dedup_inputs (load s a) (load s b) au ri = (load s1 arr1, ind1, load s1 arr2, ind2)
     \<and> allocated s1 arr1 \<and> allocated s1 arr2"
  using assms
  by (simp add: dedup_inputs_st_def dedup_inputs_def Let_def split_def)

lemma alloc_cases:
  "\<exists>r s'. alloc s a = (r, s') \<and> load s' r = a
     \<and> (\<forall>q. allocated s q \<longrightarrow> load s' q = load s q)
     \<and> (\<forall>q. allocated s q \<longrightarrow> allocated s' q) \<and> allocated s' r"
proof -
  have "alloc s a = (fst (alloc s a), snd (alloc s a))"
    by simp
  then show ?thesis
    by (metis load_alloc_new load_alloc_old allocated_alloc_new allocated_alloc_old)
qed

lemma common_positions_st_refines:
  fixes s :: "'a::linorder store"
  assumes "allocated s a" "allocated s b"
  shows "\<exists>r s1. common_positions_st s a b ri = (r, s1)
     \<and> map_sum id (\<lambda>(v, pos). (load s1 v, pos)) r = common_positions (load s a) (load s b) ri"
proof -
  let ?a = "data (load s a) @ data (load s b)"
  let ?p = "stable_order ?a"
  obtain aux s1 where c1: "alloc s (concatenate (load s a) (load s b)) = (aux, s1)"
    and l1: "load s1 aux = concatenate (load s a) (load s b)"
    and k1: "\<And>q. allocated s q \<Longrightarrow> load s1 q = load s q"
    and a1: "\<And>q. allocated s q \<Longrightarrow> allocated s1 q"
    using alloc_cases by blast
  show ?thesis
  proof (cases ri)
    case True
    have idx: "argsort (concatenate (load s a) (load s b)) = array1 (map int ?p)"
      by (simp add: argsort_def concatenate_def array1_def)
    have t: "take_indices (concatenate (load s a) (load s b)) (array1 (map int ?p))
        = Inr (array1 (map ((!) ?a) ?p))"
      unfolding concatenate_def by (rule take_indices_nat) (simp add: set_stable_order)
    obtain aux2 s2 where c2: "alloc s1 (array1 (map ((!) ?a) ?p)) = (aux2, s2)"
      and l2: "load s2 aux2 = array1 (map ((!) ?a) ?p)"
      and k2: "\<And>q. allocated s1 q \<Longrightarrow> load s2 q = load s1 q"
      and a2: "\<And>q. allocated s1 q \<Longrightarrow> allocated s2 q"
      using alloc_cases by blast
    obtain int1d s3 where c3: "alloc s2 (array1 (map (\<lambda>(i, j). ?a ! i)
          (filter (\<lambda>(i, j). ?a ! j = ?a ! i) (adjacent_pairs ?p)))) = (int1d, s3)"
      and l3: "load s3 int1d = array1 (map (\<lambda>(i, j). ?a ! i)
          (filter (\<lambda>(i, j). ?a ! j = ?a ! i) (adjacent_pairs ?p)))"
      and k3: "\<And>q. allocated s2 q \<Longrightarrow> load s3 q = load s2 q"
      using alloc_cases by blast
    have sz: "asize (load s3 a) = asize (load s a)"
      using assms(1) by (simp add: k1 k2 k3 a1 a2)
    have st: "common_positions_st s a b True =
        (Inr (int1d, Some (array1 (map (\<lambda>(i, j). int i) (filter (\<lambda>(i, j). ?a ! j = ?a ! i) (adjacent_pairs ?p))),
           sub_scalar (array1 (map (\<lambda>(i, j). int j) (filter (\<lambda>(i, j). ?a ! j = ?a ! i) (adjacent_pairs ?p))))
             (asize (load s a)))), s3)"
      unfolding common_positions_st_def Let_def c1 case_prod_conv l1 idx t
      by (simp only: if_True sum.case c2 case_prod_conv l2 neighbour_mask_array
          mask_select_first mask_select_second c3 bound_Some bind_err_Inr sz)
    have pu: "common_positions (load s a) (load s b) True =
        Inr (array1 (map (\<lambda>(i, j). ?a ! i) (filter (\<lambda>(i, j). ?a ! j = ?a ! i) (adjacent_pairs ?p))),
          Some (array1 (map (\<lambda>(i, j). int i) (filter (\<lambda>(i, j). ?a ! j = ?a ! i) (adjacent_pairs ?p))),
           sub_scalar (array1 (map (\<lambda>(i, j). int j) (filter (\<lambda>(i, j). ?a ! j = ?a ! i) (adjacent_pairs ?p))))
             (asize (load s a))))"
      unfolding common_positions_def Let_def idx t
      by (simp only: if_True bind_err_Inr case_prod_conv neighbour_mask_array
          mask_select_first mask_select_second bound_Some)
    from True show ?thesis
      by (simp add: st pu l3)
  next
    case False
    have srt: "sort_array (concatenate (load s a) (load s b)) = array1 (map ((!) ?a) ?p)"
      by (simp add: sort_array_def concatenate_def array1_def map_nth_stable_order)
    have l2: "load (sort_inplace s1 aux) aux = array1 (map ((!) ?a) ?p)"
      by (simp add: l1 srt)
    obtain int1d s3 where c3: "alloc (sort_inplace s1 aux) (array1 (map (\<lambda>(i, j). ?a ! i)
          (filter (\<lambda>(i, j). ?a ! j = ?a ! i) (adjacent_pairs ?p)))) = (int1d, s3)"
      and l3: "load s3 int1d = array1 (map (\<lambda>(i, j). ?a ! i)
          (filter (\<lambda>(i, j). ?a ! j = ?a ! i) (adjacent_pairs ?p)))"
      using alloc_cases by blast
    have st: "common_positions_st s a b False = (Inr (int1d, None), s3)"
      unfolding common_positions_st_def Let_def c1 case_prod_conv
      by (simp only: if_False sum.case case_prod_conv l2 neighbour_mask_array
          mask_select_first c3)
    have pu: "common_positions (load s a) (load s b) False =
        Inr (array1 (map (\<lambda>(i, j). ?a ! i) (filter (\<lambda>(i, j). ?a ! j = ?a ! i) (adjacent_pairs ?p))), None)"
      unfolding common_positions_def Let_def srt
      by (simp only: if_False bind_err_Inr case_prod_conv neighbour_mask_array mask_select_first)
    from False show ?thesis
      by (simp add: st pu l3)
  qed
qed

lemma intersect1d_st_refines:
  fixes s :: "'a::linorder store"
  assumes "allocated s a" "allocated s b"
  shows "map_sum id (load_result (snd (intersect1d_st s a b au ri))) (fst (intersect1d_st s a b au ri))
     = intersect1d (load s a) (load s b) au ri"
proof -
  obtain arr1 ind1 arr2 ind2 s1
    where d: "dedup_inputs_st s a b au ri = ((arr1, ind1, arr2, ind2), s1)"
      and dp: "dedup_inputs (load s a) (load s b) au ri = (load s1 arr1, ind1, load s1 arr2, ind2)"
      and al: "allocated s1 arr1" "allocated s1 arr2"
    using dedup_inputs_st_refines [OF assms] by blast
  obtain r s2 where c: "common_positions_st s1 arr1 arr2 ri = (r, s2)"
    and cp: "map_sum id (\<lambda>(v, pos). (load s2 v, pos)) r
        = common_positions (load s1 arr1) (load s1 arr2) ri"
    using common_positions_st_refines [OF al] by blast
  show ?thesis
  proof (cases r)
    case (Inl e)
    with cp have "common_positions (load s1 arr1) (load s1 arr2) ri = Inl e"
      by simp
    with Inl show ?thesis
      by (simp add: intersect1d_st_def intersect1d_def d dp c)
  next
    case (Inr x)
    obtain v pos where x: "x = (v, pos)"
      by (cases x)
    with cp Inr have "common_positions (load s1 arr1) (load s1 arr2) ri = Inr (load s2 v, pos)"
      by simp
    with Inr x show ?thesis
      by (simp add: intersect1d_st_def intersect1d_def d dp c load_result_def bind_err_def
          split: sum.splits option.splits prod.splits)
  qed
qed

section \<open>Membership results\<close>

text \<open>
  C1: for every query array Q and reference array R, \<open>in1d\<close> returns a one-dimensional
  boolean array with one entry per element of flattened Q; entry i is true iff the i-th
  element of flattened Q occurs in R, and with \<open>invert\<close> it is the negation. When Q is
  empty the result is empty, and when R is empty the result is all false (all true under
  \<open>invert\<close>).
\<close>

theorem in1d_membership:
  "shape (in1d Q R au iv) = [length (data Q)]
   \<and> data (in1d Q R au iv) = map (\<lambda>q. if iv then q \<notin> set (data R) else q \<in> set (data R)) (data Q)
   \<and> data (in1d (Q\<lparr>data := []\<rparr>) R au iv) = []
   \<and> data (in1d Q (R\<lparr>data := []\<rparr>) au iv) = replicate (length (data Q)) iv"
proof -
  have "data (in1d Q R au iv) = map (\<lambda>q. if iv then q \<notin> set (data R) else q \<in> set (data R)) (data Q)"
    by (simp add: in1d_data)
  moreover have "data (in1d (Q\<lparr>data := []\<rparr>) R au iv) = []"
    by (simp add: in1d_data)
  moreover have "data (in1d Q (R\<lparr>data := []\<rparr>) au iv) = replicate (length (data Q)) iv"
    by (simp add: in1d_data map_replicate_const)
  ultimately show ?thesis
    by (simp add: in1d_shape)
qed

theorem in1d_membership_witness:
  "data (in1d (array1 [1, 2, 2, 3 :: int]) (array1 [2, 3, 4]) False False) = [False, True, True, True]
   \<and> data (in1d (array1 [1, 2, 2, 3 :: int]) (array1 [2, 3, 4]) False True) = [True, False, False, False]
   \<and> shape (in1d \<lparr>shape = [2, 2], data = [1, 2, 2, 3 :: int]\<rparr> (array1 [2, 3, 4]) False False) = [4]"
  using in1d_membership [of "array1 [1, 2, 2, 3 :: int]" "array1 [2, 3, 4]" False False]
    in1d_membership [of "array1 [1, 2, 2, 3 :: int]" "array1 [2, 3, 4]" False True]
    in1d_membership [of "\<lparr>shape = [2, 2], data = [1, 2, 2, 3 :: int]\<rparr>" "array1 [2, 3, 4]" False False]
  by (simp add: array1_def)

text \<open>
  C6: for every well-formed array x and every array y, \<open>isin\<close> with \<open>invert\<close> set is
  the element-wise negation of \<open>isin\<close> without it, and both results have the shape of x.
\<close>

theorem isin_invert:
  "wf_array x \<Longrightarrow>
   \<exists>r. isin x y au False = Inr r \<and> isin x y au True = Inr (logical_not r)
     \<and> shape r = shape x \<and> shape (logical_not r) = shape x"
  by (simp add: isin_def reshape_in1d logical_not_def in1d_data)

theorem isin_invert_witness:
  "wf_array \<lparr>shape = [2, 2], data = [1, 2, 2, 3 :: int]\<rparr>
   \<and> isin \<lparr>shape = [2, 2], data = [1, 2, 2, 3 :: int]\<rparr> (array1 [2, 3, 4]) False False
       = Inr \<lparr>shape = [2, 2], data = [False, True, True, True]\<rparr>
   \<and> isin \<lparr>shape = [2, 2], data = [1, 2, 2, 3 :: int]\<rparr> (array1 [2, 3, 4]) False True
       = Inr \<lparr>shape = [2, 2], data = [True, False, False, False]\<rparr>"
proof -
  let ?x = "\<lparr>shape = [2, 2], data = [1, 2, 2, 3 :: int]\<rparr>"
  have wf: "wf_array ?x"
    by (simp add: wf_array_def)
  have "isin ?x (array1 [2, 3, 4]) False False = Inr \<lparr>shape = [2, 2], data = [False, True, True, True]\<rparr>"
    by (simp add: isin_def reshape_def in1d_data in1d_shape array1_def)
  with wf isin_invert [OF wf, of "array1 [2, 3, 4]" False] show ?thesis
    by (auto simp: logical_not_def)
qed

text \<open>
  C8: \<open>in1d\<close> and \<open>isin\<close> return the same result whether \<open>assume_unique\<close> is set or
  not, for all inputs and both values of \<open>invert\<close>.
\<close>

theorem assume_unique_ignored:
  "in1d a b True iv = in1d a b False iv \<and> isin a b True iv = isin a b False iv"
  by (simp add: in1d_def isin_def)

section \<open>Union results\<close>

text \<open>
  C5: for every pair of arrays, \<open>union1d\<close> returns the values occurring in either
  input, each exactly once, in ascending order.
\<close>

theorem union1d_sorted_unique:
  "sorted_wrt (<) (data (union1d a b))
   \<and> distinct (data (union1d a b))
   \<and> set (data (union1d a b)) = set (data a) \<union> set (data b)"
  by (simp add: union1d_def unique_array_def concatenate_flat_def concatenate_def ravel_def
      array1_def strict_sorted_iff)

theorem union1d_sorted_unique_witness:
  "union1d (array1 [1, 2, 2, 3 :: int]) (array1 [2, 3, 4]) = array1 [1, 2, 3, 4]"
proof -
  have "sorted_wrt (<) [1, 2, 3, 4 :: int]"
    by simp
  moreover have "set [1, 2, 3, 4 :: int] = set (data (array1 [1, 2, 2, 3 :: int])) \<union> set (data (array1 [2, 3, 4 :: int]))"
    by (auto simp: array1_def)
  ultimately have "data (union1d (array1 [1, 2, 2, 3 :: int]) (array1 [2, 3, 4])) = [1, 2, 3, 4]"
    using union1d_sorted_unique [of "array1 [1, 2, 2, 3 :: int]" "array1 [2, 3, 4]"]
    by (metis sorted_distinct_set_unique strict_sorted_iff)
  then show ?thesis
    by (simp add: union1d_def unique_array_def array1_def)
qed

section \<open>Intersection results\<close>

text \<open>
  C2: for every pair of arrays and both values of \<open>assume_unique\<close> (the inputs being
  duplicate-free when it is set), \<open>intersect1d\<close> returns an array of values that is
  sorted, has no duplicates, and holds exactly the values occurring in both inputs. This
  holds with and without the index arrays. In particular the intersection with an empty
  array is empty.
\<close>

theorem intersect1d_sorted_unique:
  assumes "au \<longrightarrow> distinct (data a) \<and> distinct (data b)"
  shows "\<exists>r. intersect1d a b au ri = Inr r
     \<and> sorted (data (result_values r)) \<and> distinct (data (result_values r))
     \<and> set (data (result_values r)) = set (data a) \<inter> set (data b)"
proof -
  let ?xs = "if au then data a else sort (remdups (data a))"
  let ?ys = "if au then data b else sort (remdups (data b))"
  have d: "distinct ?xs" "distinct ?ys"
    using assms by auto
  have st: "set ?xs = set (data a)" "set ?ys = set (data b)"
    by auto
  note p = dups_sort_append [OF d]
  have v: "\<exists>r. intersect1d a b au ri = Inr r \<and> data (result_values r) = dups (sort (?xs @ ?ys))"
  proof (cases ri)
    case False
    then show ?thesis
      by (simp add: intersect1d_values result_values_def array1_def)
  next
    case True
    show ?thesis
    proof (cases au)
      case True
      with \<open>ri\<close> show ?thesis
        by (simp add: intersect1d_unique_indices result_values_def array1_def)
    next
      case False
      with \<open>ri\<close> show ?thesis
        by (simp add: intersect1d_dedup_indices result_values_def array1_def)
    qed
  qed
  then obtain r where "intersect1d a b au ri = Inr r"
    and "data (result_values r) = dups (sort (?xs @ ?ys))"
    by blast
  with p st show ?thesis
    by simp
qed

theorem intersect1d_sorted_unique_witness:
  "intersect1d (array1 [1, 2, 2, 3 :: int]) (array1 [2, 3, 4]) False False = Inr (Values (array1 [2, 3]))
   \<and> intersect1d (array1 ([] :: int list)) (array1 [2, 3, 4]) False False = Inr (Values (array1 []))
   \<and> intersect1d (array1 [3, 1, 2 :: int]) (array1 [2, 3, 4]) True False = Inr (Values (array1 [2, 3]))
   \<and> distinct (data (array1 [3, 1, 2 :: int])) \<and> distinct (data (array1 [2, 3, 4 :: int]))
   \<and> set [2, 3 :: int] = set (data (array1 [3, 1, 2 :: int])) \<inter> set (data (array1 [2, 3, 4 :: int]))"
proof -
  have e1: "intersect1d (array1 [1, 2, 2, 3 :: int]) (array1 [2, 3, 4]) False False = Inr (Values (array1 [2, 3]))"
    by code_simp
  have e2: "intersect1d (array1 ([] :: int list)) (array1 [2, 3, 4]) False False = Inr (Values (array1 []))"
    by code_simp
  have e3: "intersect1d (array1 [3, 1, 2 :: int]) (array1 [2, 3, 4]) True False = Inr (Values (array1 [2, 3]))"
    by code_simp
  have h: "True \<longrightarrow> distinct (data (array1 [3, 1, 2 :: int])) \<and> distinct (data (array1 [2, 3, 4 :: int]))"
    by (simp add: array1_def)
  from intersect1d_sorted_unique [OF h, of False] e1 e2 e3 h show ?thesis
    by (simp add: result_values_def array1_def)
qed

text \<open>
  C3: with \<open>assume_unique=False\<close> and \<open>return_indices=True\<close>, \<open>intersect1d\<close>
  returns the values with two index arrays of the same length; at every output position
  k the two indices are the positions of the first occurrence of the k-th value in the
  original (flattened, not deduplicated) first and second input, so both inputs hold the
  k-th value there.
\<close>

theorem intersect1d_first_indices:
  "\<exists>v c1 c2. intersect1d a b False True = Inr (WithIndices v c1 c2)
     \<and> length (data c1) = length (data v) \<and> length (data c2) = length (data v)
     \<and> (\<forall>k<length (data v).
           first_occurrence (data a) (data v ! k) (data c1 ! k)
         \<and> first_occurrence (data b) (data v ! k) (data c2 ! k))"
proof -
  let ?u1 = "sort (remdups (data a))"
  let ?u2 = "sort (remdups (data b))"
  let ?sel = "common_pairs (?u1 @ ?u2)"
  let ?v = "map (\<lambda>(i, j). (?u1 @ ?u2) ! i) ?sel"
  let ?c1 = "map (\<lambda>(i, j). int (first_index (data a) (?u1 ! i))) ?sel"
  let ?c2 = "map (\<lambda>(i, j). int (first_index (data b) (?u2 ! (j - length ?u1)))) ?sel"
  have d: "distinct ?u1" "distinct ?u2"
    by simp_all
  have e: "intersect1d a b False True
      = Inr (WithIndices (array1 ?v) (array1 ?c1) (array1 ?c2))"
    by (simp add: intersect1d_dedup_indices common_pairs_values)
  have "first_occurrence (data a) (?v ! k) (?c1 ! k)
      \<and> first_occurrence (data b) (?v ! k) (?c2 ! k)" if "k < length ?sel" for k
  proof -
    obtain i j where z: "?sel ! k = (i, j)"
      by (cases "?sel ! k")
    with that have "(i, j) \<in> set ?sel"
      by (metis nth_mem)
    from common_pairs_split [OF d this]
    have i: "i < length ?u1" and j: "j - length ?u1 < length ?u2"
      and eq: "?u1 ! i = ?u2 ! (j - length ?u1)"
      by auto
    from i have "?u1 ! i \<in> set ?u1"
      by (rule nth_mem)
    then have m1: "?u1 ! i \<in> set (data a)"
      by simp
    from j have "?u2 ! (j - length ?u1) \<in> set ?u2"
      by (rule nth_mem)
    then have m2: "?u2 ! (j - length ?u1) \<in> set (data b)"
      by simp
    have v: "?v ! k = ?u1 ! i"
      using that z i by (simp add: nth_append)
    have "first_occurrence (data a) (?u1 ! i) (int (first_index (data a) (?u1 ! i)))"
      using m1 by (rule first_index_first_occurrence)
    moreover have "first_occurrence (data b) (?u2 ! (j - length ?u1))
        (int (first_index (data b) (?u2 ! (j - length ?u1))))"
      using m2 by (rule first_index_first_occurrence)
    ultimately show ?thesis
      using that z v eq by simp
  qed
  then show ?thesis
    unfolding e by (simp add: array1_def)
qed

theorem intersect1d_first_indices_witness:
  "intersect1d (array1 [1, 2, 3 :: int]) (array1 [3, 1, 4]) False True
     = Inr (WithIndices (array1 [1, 3]) (array1 [0, 2]) (array1 [1, 0]))
   \<and> first_occurrence [1, 2, 3 :: int] 1 0 \<and> first_occurrence [3, 1, 4 :: int] 1 1
   \<and> first_occurrence [1, 2, 3 :: int] 3 2 \<and> first_occurrence [3, 1, 4 :: int] 3 0"
proof -
  have e: "intersect1d (array1 [1, 2, 3 :: int]) (array1 [3, 1, 4]) False True
     = Inr (WithIndices (array1 [1, 3]) (array1 [0, 2]) (array1 [1, 0]))"
    by code_simp
  from intersect1d_first_indices [of "array1 [1, 2, 3 :: int]" "array1 [3, 1, 4]"]
  have q: "\<forall>k<length [1, 3 :: int].
      first_occurrence [1, 2, 3 :: int] ([1, 3] ! k) ([0, 2] ! k)
    \<and> first_occurrence [3, 1, 4 :: int] ([1, 3] ! k) ([1, 0] ! k)"
    unfolding e by (simp add: array1_def)
  from q [rule_format, of 0] q [rule_format, of 1] e show ?thesis
    by simp
qed

text \<open>
  C4: for duplicate-free arrays, as they are after the dedup step, and with indices
  requested, every entry of the first position array is non-negative and less than the
  length of the first array, and every entry of the second, after the subtraction of that
  length, is non-negative and less than the length of the second array. The stable
  tie-breaking of \<open>argsort\<close> is what places the first array's entry before the second's.
\<close>

theorem index_bounds:
  assumes "distinct (data arr1)" and "distinct (data arr2)"
  shows "\<exists>v i1 i2. common_positions arr1 arr2 True = Inr (v, Some (i1, i2))
     \<and> list_all (\<lambda>i. 0 \<le> i \<and> i < int (asize arr1)) (data i1)
     \<and> list_all (\<lambda>j. 0 \<le> j \<and> j < int (asize arr2)) (data i2)"
proof -
  have "\<forall>z\<in>set (common_pairs (data arr1 @ data arr2)).
      fst z < length (data arr1) \<and> length (data arr1) \<le> snd z
      \<and> snd z < length (data arr1) + length (data arr2)"
    using common_pairs_split [OF assms] by auto
  then show ?thesis
    by (auto simp: common_positions_indices asize_def array1_def list_all_iff)
qed

theorem index_bounds_witness:
  "distinct (data (array1 [1, 2, 3 :: int])) \<and> distinct (data (array1 [3, 1, 4 :: int]))
   \<and> common_positions (array1 [1, 2, 3 :: int]) (array1 [3, 1, 4]) True
       = Inr (array1 [1, 3], Some (array1 [0, 2], array1 [1, 0]))
   \<and> list_all (\<lambda>i. 0 \<le> i \<and> i < int (asize (array1 [1, 2, 3 :: int]))) [0, 2]
   \<and> list_all (\<lambda>j. 0 \<le> j \<and> j < int (asize (array1 [3, 1, 4 :: int]))) [1, 0]"
proof -
  have d1: "distinct (data (array1 [1, 2, 3 :: int]))"
    by (simp add: array1_def)
  have d2: "distinct (data (array1 [3, 1, 4 :: int]))"
    by (simp add: array1_def)
  have e: "common_positions (array1 [1, 2, 3 :: int]) (array1 [3, 1, 4]) True
       = Inr (array1 [1, 3], Some (array1 [0, 2], array1 [1, 0]))"
    by code_simp
  from index_bounds [OF d1 d2] d1 d2 show ?thesis
    unfolding e by (simp add: array1_def)
qed

text \<open>
  C10: for every pair of arrays and both values of \<open>assume_unique\<close>, \<open>intersect1d\<close>
  with \<open>return_indices=True\<close> returns three arrays, and each index array has the
  length of the array of values.
\<close>

theorem intersect1d_three_arrays:
  "\<exists>v c1 c2. intersect1d a b au True = Inr (WithIndices v c1 c2)
     \<and> asize c1 = asize v \<and> asize c2 = asize v"
proof (cases au)
  case True
  then show ?thesis
    by (simp add: intersect1d_unique_indices asize_def array1_def length_common_pairs)
next
  case False
  then show ?thesis
    by (simp add: intersect1d_dedup_indices asize_def array1_def length_common_pairs)
qed

theorem intersect1d_three_arrays_witness:
  "intersect1d (array1 [5, 1, 5, 3, 1 :: int]) (array1 [3, 3, 5, 7, 5]) False True
     = Inr (WithIndices (array1 [3, 5]) (array1 [3, 0]) (array1 [0, 2]))
   \<and> intersect1d (array1 [1, 2, 2, 3 :: int]) (array1 [2, 3, 4]) True True
     = Inr (WithIndices (array1 [2, 2, 3]) (array1 [1, 2, 3]) (array1 [- 2, 0, 1]))"
proof -
  have e1: "intersect1d (array1 [5, 1, 5, 3, 1 :: int]) (array1 [3, 3, 5, 7, 5]) False True
     = Inr (WithIndices (array1 [3, 5]) (array1 [3, 0]) (array1 [0, 2]))"
    by code_simp
  have e2: "intersect1d (array1 [1, 2, 2, 3 :: int]) (array1 [2, 3, 4]) True True
     = Inr (WithIndices (array1 [2, 2, 3]) (array1 [1, 2, 3]) (array1 [- 2, 0, 1]))"
    by code_simp
  from intersect1d_three_arrays [of "array1 [5, 1, 5, 3, 1 :: int]" "array1 [3, 3, 5, 7, 5]" False]
    e1 e2 show ?thesis
    by simp
qed

section \<open>Reduction results\<close>

text \<open>
  C7: when fusion is active and \<open>keepdims\<close> is requested, \<open>all\<close> and \<open>any\<close> raise
  NotImplementedError and leave the world as it was: no collaborator has run, so no
  reduction work was done.
\<close>

theorem keepdims_in_fusion_unsupported:
  "is_fusing rt w \<Longrightarrow>
   all_reduce rt a axis out True w
     = (Inl (NotImplementedError ''cupy.all does not support `keepdims` in fusion yet.''), w)
   \<and> any_reduce rt a axis out True w
     = (Inl (NotImplementedError ''cupy.any does not support `keepdims` in fusion yet.''), w)"
  by (simp add: all_reduce_def any_reduce_def)

theorem keepdims_in_fusion_unsupported_witness:
  "is_fusing logging_runtime []
   \<and> all_reduce logging_runtime (array1 [1, 0]) None None True []
     = (Inl (NotImplementedError ''cupy.all does not support `keepdims` in fusion yet.''), [])
   \<and> any_reduce logging_runtime (array1 [1, 0]) None None True []
     = (Inl (NotImplementedError ''cupy.any does not support `keepdims` in fusion yet.''), [])
   \<and> all_reduce logging_runtime (array1 [1, 0]) None None False [] = (Inr True, [''call_reduction''])"
proof -
  have f: "is_fusing logging_runtime []"
    by (simp add: logging_runtime_def)
  have "all_reduce logging_runtime (array1 [1, 0]) None None False [] = (Inr True, [''call_reduction''])"
    by (simp add: all_reduce_def logging_runtime_def)
  with f keepdims_in_fusion_unsupported [OF f, of "array1 [1, 0]" None None] show ?thesis
    by simp
qed

section \<open>Frame results\<close>

text \<open>
  C9: none of \<open>in1d\<close>, \<open>isin\<close>, \<open>intersect1d\<close> and \<open>union1d\<close> changes an array
  that existed before the call: every buffer of the store before the call has the same
  contents after it, and in particular both input arrays read the same before and after.
\<close>

theorem inputs_not_mutated:
  fixes s :: "'a::linorder store"
  assumes "allocated s a" and "allocated s b"
  shows "untouched s (snd (in1d_st s a b au iv))
     \<and> load (snd (in1d_st s a b au iv)) a = load s a
     \<and> load (snd (in1d_st s a b au iv)) b = load s b
     \<and> untouched s (snd (isin_st s a b au iv))
     \<and> load (snd (isin_st s a b au iv)) a = load s a
     \<and> load (snd (isin_st s a b au iv)) b = load s b
     \<and> untouched s (snd (intersect1d_st s a b au ri))
     \<and> load (snd (intersect1d_st s a b au ri)) a = load s a
     \<and> load (snd (intersect1d_st s a b au ri)) b = load s b
     \<and> untouched s (snd (union1d_st s a b))
     \<and> load (snd (union1d_st s a b)) a = load s a
     \<and> load (snd (union1d_st s a b)) b = load s b"
proof -
  have e: "extends s s"
    by simp
  note f = in1d_st_extends [OF e] isin_st_extends [OF e] intersect1d_st_extends [OF e]
    union1d_st_extends [OF e]
  show ?thesis
    using assms by (simp add: f extends_untouched extends_load)
qed

theorem inputs_not_mutated_witness:
  "allocated example_store \<lparr>addr = 0, ashape = [3]\<rparr>
   \<and> allocated example_store \<lparr>addr = 1, ashape = [3]\<rparr>
   \<and> load example_store \<lparr>addr = 0, ashape = [3]\<rparr> = array1 [3, 1, 2]
   \<and> load (snd (intersect1d_st example_store \<lparr>addr = 0, ashape = [3]\<rparr> \<lparr>addr = 1, ashape = [3]\<rparr> True False))
        \<lparr>addr = 0, ashape = [3]\<rparr> = array1 [3, 1, 2]
   \<and> load (snd (intersect1d_st example_store \<lparr>addr = 0, ashape = [3]\<rparr> \<lparr>addr = 1, ashape = [3]\<rparr> True False))
        \<lparr>addr = 1, ashape = [3]\<rparr> = array1 [2, 3, 4]
   \<and> load (snd (intersect1d_st example_store \<lparr>addr = 0, ashape = [3]\<rparr> \<lparr>addr = 1, ashape = [3]\<rparr> True False))
        \<lparr>addr = 2, ashape = [6]\<rparr> = array1 [1, 2, 2, 3, 3, 4]
   \<and> fst (intersect1d_st example_store \<lparr>addr = 0, ashape = [3]\<rparr> \<lparr>addr = 1, ashape = [3]\<rparr> True False)
        = Inr (ValuesRef \<lparr>addr = 3, ashape = [2]\<rparr>)"
proof -
  let ?a = "\<lparr>addr = 0, ashape = [3]\<rparr>"
  let ?b = "\<lparr>addr = 1, ashape = [3]\<rparr>"
  have a: "allocated example_store ?a"
    by (simp add: allocated_def example_store_def)
  have b: "allocated example_store ?b"
    by (simp add: allocated_def example_store_def)
  have la: "load example_store ?a = array1 [3, 1, 2]"
    by (simp add: load_def contents_def example_store_def array1_def)
  have lb: "load example_store ?b = array1 [2, 3, 4]"
    by (simp add: load_def contents_def example_store_def array1_def)
  have aux: "load (snd (intersect1d_st example_store ?a ?b True False)) \<lparr>addr = 2, ashape = [6]\<rparr>
      = array1 [1, 2, 2, 3, 3, 4]"
    by code_simp
  have r: "fst (intersect1d_st example_store ?a ?b True False) = Inr (ValuesRef \<lparr>addr = 3, ashape = [2]\<rparr>)"
    by code_simp
  from inputs_not_mutated [OF a b, of True False False] a b la lb aux r show ?thesis
    by simp
qed

end
